theory Spec2Isabelle
  imports Main
begin

section \<open>Python values and the operations the extractor applies to them\<close>

text \<open>
  The migration code of \<^verbatim>\<open>ga_extractor/extractor.py\<close> works on the decoded response of the
  reporting API: nested dictionaries and lists with integers and strings at the leaves
  (the API sends metric values as strings, as the example row in the source's comment
  shows: \<^verbatim>\<open>'metrics': [{'values': ['4', '1']}]\<close>).
  A dictionary is an association list in insertion order, which is the order
  \<^verbatim>\<open>dict.items()\<close> iterates in.
\<close>

datatype pyval =
    PInt int
  | PStr string
  | PList "pyval list"
  | PDict "(pyval \<times> pyval) list"

datatype exn = TypeError | KeyError | IndexError | ValueError | HttpError

text \<open>
  Sequencing of statements that may raise: the first exception ends the run.
  \<open>HttpError\<close> stands for a failure of the reporting service.
\<close>

definition bind :: "exn + 'a \<Rightarrow> ('a \<Rightarrow> exn + 'b) \<Rightarrow> exn + 'b" where
  "bind m f = (case m of Inl e \<Rightarrow> Inl e | Inr x \<Rightarrow> f x)"

text \<open>
  Indexing a sequence with an integer: negative indices count from the end, anything
  outside the sequence raises \<^verbatim>\<open>IndexError\<close>.
\<close>

definition seq_index :: "'a list \<Rightarrow> int \<Rightarrow> exn + 'a" where
  "seq_index xs i =
     (let n = int (length xs); j = (if i < 0 then i + n else i)
      in if 0 \<le> j \<and> j < n then Inr (xs ! nat j) else Inl IndexError)"

text \<open>
  The subscript \<^verbatim>\<open>obj[key]\<close>. A list or a string takes an integer and raises
  \<^verbatim>\<open>TypeError\<close> on any other key; a dictionary raises \<^verbatim>\<open>KeyError\<close> on a missing key and
  \<^verbatim>\<open>TypeError\<close> on an unhashable one; an integer has no subscript.
\<close>

fun getitem :: "pyval \<Rightarrow> pyval \<Rightarrow> exn + pyval" where
  "getitem (PList xs) (PInt i) = seq_index xs i"
| "getitem (PList xs) k = Inl TypeError"
| "getitem (PStr s) (PInt i) = bind (seq_index s i) (\<lambda>c. Inr (PStr [c]))"
| "getitem (PStr s) k = Inl TypeError"
| "getitem (PDict kvs) (PList k) = Inl TypeError"
| "getitem (PDict kvs) (PDict k) = Inl TypeError"
| "getitem (PDict kvs) k = (case map_of kvs k of None \<Rightarrow> Inl KeyError | Some v \<Rightarrow> Inr v)"
| "getitem (PInt n) k = Inl TypeError"

text \<open>
  The assignment \<^verbatim>\<open>page_views, sessions = ...\<close> unpacks an iterable of exactly two
  elements (a dictionary iterates over its keys, a string over its characters).
\<close>

fun unpack2 :: "pyval \<Rightarrow> exn + (pyval \<times> pyval)" where
  "unpack2 (PList [a, b]) = Inr (a, b)"
| "unpack2 (PList xs) = Inl ValueError"
| "unpack2 (PStr [a, b]) = Inr (PStr [a], PStr [b])"
| "unpack2 (PStr s) = Inl ValueError"
| "unpack2 (PDict [(a, x), (b, y)]) = Inr (a, b)"
| "unpack2 (PDict kvs) = Inl ValueError"
| "unpack2 (PInt n) = Inl TypeError"

text \<open>
  \<^verbatim>\<open>max(sessions, 1)\<close> compares the integer 1 with its first argument; only an integer
  can be ordered against it.
\<close>

fun max_with_1 :: "pyval \<Rightarrow> exn + int" where
  "max_with_1 (PInt n) = Inr (max n 1)"
| "max_with_1 v = Inl TypeError"

text \<open>
  An arithmetic operand that has to be an integer: \<^verbatim>\<open>page_views // sessions\<close> raises
  \<^verbatim>\<open>TypeError\<close> on a string, a list or a dictionary.
\<close>

fun as_int :: "pyval \<Rightarrow> exn + int" where
  "as_int (PInt n) = Inr n"
| "as_int v = Inl TypeError"

text \<open>Decimal rendering of an integer, as an f-string does it.\<close>

fun digits :: "nat \<Rightarrow> string" where
  "digits n =
     (if n < 10 then [''0123456789'' ! n] else digits (n div 10) @ [''0123456789'' ! (n mod 10)])"

definition str_of_int :: "int \<Rightarrow> string" where
  "str_of_int i = (if i < 0 then CHR ''-'' # digits (nat (- i)) else digits (nat i))"

section \<open>The records of the migration\<close>

type_synonym uuid = nat

record Session =
  session_id :: int
  session_uuid :: uuid
  website_id :: int
  created_at :: string
  hostname :: string
  browser :: pyval
  os :: pyval
  device :: pyval
  screen :: pyval
  language :: pyval
  country :: pyval

record PageView =
  view_id :: int
  pv_website_id :: int
  pv_session_id :: int
  pv_created_at :: string
  url :: pyval

text \<open>
  The list \<^verbatim>\<open>sql_inserts\<close> holds sessions, page views and, at its end, text.
\<close>

datatype entry = ESession Session | EPageView PageView | EText string

text \<open>
  The local variables of \<^verbatim>\<open>__migrate_transform\<close> that the loops update, and the number
  of calls of \<^verbatim>\<open>uuid.uuid4()\<close> made so far. The random source is a parameter
  \<open>uuid4\<close>: its \<open>n\<close>-th call returns \<open>uuid4 n\<close>.
\<close>

record vars =
  page_view_id :: int
  cur_session_id :: int
  sql_inserts :: "entry list"
  uuid_calls :: nat

section \<open>The synthesizer: \<^verbatim>\<open>__migrate_transform\<close>\<close>

text \<open>
  \<^verbatim>\<open>row["dimensions"][k]\<close>, evaluated anew at every use.
\<close>

definition dimension :: "pyval \<Rightarrow> int \<Rightarrow> exn + pyval" where
  "dimension row k = bind (getitem row (PStr ''dimensions'')) (\<lambda>d. getitem d (PInt k))"

text \<open>
  The constructor call \<^verbatim>\<open>Session(session_uuid=uuid.uuid4(), session_id=session_id, ...)\<close>:
  the arguments are evaluated in the order written, so the dimensions 1 to 6 are read
  after the UUID is drawn. \<open>wid\<close> and \<open>host\<close> are the locals \<^verbatim>\<open>website_id\<close> and
  \<^verbatim>\<open>hostname\<close>.
\<close>

definition new_session ::
  "(nat \<Rightarrow> uuid) \<Rightarrow> int \<Rightarrow> string \<Rightarrow> pyval \<Rightarrow> string \<Rightarrow> vars \<Rightarrow> exn + Session" where
  "new_session uuid4 wid host row timestamp vs =
     bind (dimension row 1) (\<lambda>b. bind (dimension row 2) (\<lambda>opsys. bind (dimension row 3) (\<lambda>d.
     bind (dimension row 4) (\<lambda>sc. bind (dimension row 5) (\<lambda>l. bind (dimension row 6) (\<lambda>c.
       Inr \<lparr>session_id = cur_session_id vs, session_uuid = uuid4 (uuid_calls vs),
            website_id = wid, created_at = timestamp, hostname = host,
            browser = b, os = opsys, device = d, screen = sc, language = l, country = c\<rparr>))))))"

text \<open>\<^verbatim>\<open>PageView(id=page_view_id, website_id=website_id, session_id=..., created_at=timestamp, url=row["dimensions"][0])\<close>\<close>

definition new_page_view :: "int \<Rightarrow> pyval \<Rightarrow> string \<Rightarrow> int \<Rightarrow> vars \<Rightarrow> exn + PageView" where
  "new_page_view wid row timestamp sid vs =
     bind (dimension row 0) (\<lambda>u.
       Inr \<lparr>view_id = page_view_id vs, pv_website_id = wid, pv_session_id = sid,
            pv_created_at = timestamp, url = u\<rparr>)"

text \<open>
  Lines 310 to 317, and again lines 331 to 338 (the two loops are the same text):
  \<^verbatim>\<open>for i in range(sessions)\<close> appends a session and one page view of it, and advances
  both counters. The \<open>nat\<close> argument is the number of iterations left.
\<close>

fun one_view_each ::
  "(nat \<Rightarrow> uuid) \<Rightarrow> int \<Rightarrow> string \<Rightarrow> pyval \<Rightarrow> string \<Rightarrow> nat \<Rightarrow> vars \<Rightarrow> exn + vars" where
  "one_view_each uuid4 wid host row timestamp 0 vs = Inr vs"
| "one_view_each uuid4 wid host row timestamp (Suc n) vs =
     bind (new_session uuid4 wid host row timestamp vs) (\<lambda>s.
     bind (new_page_view wid row timestamp (cur_session_id vs) vs) (\<lambda>p.
       one_view_each uuid4 wid host row timestamp n
         (vs\<lparr>sql_inserts := sql_inserts vs @ [ESession s, EPageView p],
             cur_session_id := cur_session_id vs + 1,
             page_view_id := page_view_id vs + 1,
             uuid_calls := Suc (uuid_calls vs)\<rparr>)))"

text \<open>
  Lines 325 to 328 (with \<open>sid\<close> the current \<^verbatim>\<open>session_id\<close>) and lines 340 to 343 (with
  \<open>sid\<close> the value of \<^verbatim>\<open>last_session_id\<close>): a loop that appends one page view of session
  \<open>sid\<close> per iteration.
\<close>

fun views_of ::
  "int \<Rightarrow> pyval \<Rightarrow> string \<Rightarrow> int \<Rightarrow> nat \<Rightarrow> vars \<Rightarrow> exn + vars" where
  "views_of wid row timestamp sid 0 vs = Inr vs"
| "views_of wid row timestamp sid (Suc n) vs =
     bind (new_page_view wid row timestamp sid vs) (\<lambda>p.
       views_of wid row timestamp sid n
         (vs\<lparr>sql_inserts := sql_inserts vs @ [EPageView p],
             page_view_id := page_view_id vs + 1\<rparr>))"

text \<open>
  Lines 320 to 329: \<^verbatim>\<open>for i in range(sessions)\<close> appends a session, then \<open>per\<close> page
  views of it (\<open>per\<close> is \<^verbatim>\<open>page_views // sessions\<close>), then advances \<^verbatim>\<open>session_id\<close>.
\<close>

fun split_equally ::
  "(nat \<Rightarrow> uuid) \<Rightarrow> int \<Rightarrow> string \<Rightarrow> pyval \<Rightarrow> string \<Rightarrow> nat \<Rightarrow> nat \<Rightarrow> vars \<Rightarrow> exn + vars" where
  "split_equally uuid4 wid host row timestamp per 0 vs = Inr vs"
| "split_equally uuid4 wid host row timestamp per (Suc n) vs =
     bind (new_session uuid4 wid host row timestamp vs) (\<lambda>s.
     bind (views_of wid row timestamp (cur_session_id vs) per
             (vs\<lparr>sql_inserts := sql_inserts vs @ [ESession s],
                 uuid_calls := Suc (uuid_calls vs)\<rparr>)) (\<lambda>vs'.
       split_equally uuid4 wid host row timestamp per n
         (vs'\<lparr>cur_session_id := cur_session_id vs' + 1\<rparr>)))"

text \<open>
  The metrics of an item of \<^verbatim>\<open>rows\<close>: \<^verbatim>\<open>page_views, sessions = row[0]["metrics"][0]["values"]\<close>.
\<close>

definition metric_values :: "pyval \<Rightarrow> exn + (pyval \<times> pyval)" where
  "metric_values row =
     bind (getitem row (PInt 0)) (\<lambda>r0. bind (getitem r0 (PStr ''metrics'')) (\<lambda>m.
     bind (getitem m (PInt 0)) (\<lambda>m0. bind (getitem m0 (PStr ''values'')) unpack2)))"

text \<open>
  The body of the loop over \<^verbatim>\<open>rows.items()\<close>, lines 306 to 343. The first operation on
  \<^verbatim>\<open>page_views\<close> is \<^verbatim>\<open>page_views // sessions\<close>, which raises unless it is an integer;
  \<open>v\<close> is that integer from there on. \<^verbatim>\<open>range\<close> of a negative number is empty, as
  \<open>nat\<close> of it is 0.
\<close>

definition transform_item ::
  "(nat \<Rightarrow> uuid) \<Rightarrow> int \<Rightarrow> string \<Rightarrow> string \<Rightarrow> pyval \<Rightarrow> vars \<Rightarrow> exn + vars" where
  "transform_item uuid4 wid host day row vs =
     (let timestamp = day @ '' 00:00:00.000+00'' in
      bind (metric_values row) (\<lambda>(page_views, sessions0).
      bind (max_with_1 sessions0) (\<lambda>sessions.
      bind (as_int page_views) (\<lambda>v.
        if v div sessions = 1 then
          one_view_each uuid4 wid host row timestamp (nat sessions) vs
        else if v mod sessions = 0 then
          split_equally uuid4 wid host row timestamp (nat (v div sessions)) (nat sessions) vs
        else
          bind (one_view_each uuid4 wid host row timestamp (nat sessions) vs) (\<lambda>vs'.
            views_of wid row timestamp (cur_session_id vs' - 1) (nat (v - sessions)) vs')))))"

fun transform_items ::
  "(nat \<Rightarrow> uuid) \<Rightarrow> int \<Rightarrow> string \<Rightarrow> (string \<times> pyval) list \<Rightarrow> vars \<Rightarrow> exn + vars" where
  "transform_items uuid4 wid host [] vs = Inr vs"
| "transform_items uuid4 wid host ((day, row) # rest) vs =
     bind (transform_item uuid4 wid host day row vs) (transform_items uuid4 wid host rest)"

text \<open>
  Lines 345 to 348: the list passed to \<^verbatim>\<open>extend\<close> holds two f-strings with no comma
  between them, which Python joins into one string literal.
\<close>

definition setval_text :: "int \<Rightarrow> int \<Rightarrow> string" where
  "setval_text pv_id s_id =
     ''SELECT pg_catalog.setval('public.pageview_view_id_seq', '' @ str_of_int pv_id @ '', true);''
     @ ''SELECT pg_catalog.setval('public.session_session_id_seq', '' @ str_of_int s_id @ '', true);''"

definition migrate_transform :: "(nat \<Rightarrow> uuid) \<Rightarrow> (string \<times> pyval) list \<Rightarrow> exn + entry list" where
  "migrate_transform uuid4 rows =
     bind (transform_items uuid4 1 ''localhost'' rows
             \<lparr>page_view_id = 1, cur_session_id = 1, sql_inserts = [], uuid_calls = 0\<rparr>) (\<lambda>vs.
       Inr (sql_inserts vs @ [EText (setval_text (page_view_id vs) (cur_session_id vs))]))"

section \<open>The aggregator: \<^verbatim>\<open>_migrate_date_ranges\<close> and \<^verbatim>\<open>__migrate_extract\<close>\<close>

text \<open>
  The standard library's date functions are parameters. \<open>strptime\<close> is
  \<^verbatim>\<open>datetime.strptime(_, '%Y-%m-%d')\<close>: it raises or returns a date at midnight, given here
  by its day number (the proleptic Gregorian ordinal). \<open>strftime\<close> is the rendering
  \<^verbatim>\<open>f"{_:%Y-%m-%d}"\<close> of such a date. Adding \<^verbatim>\<open>timedelta(days=d)\<close> adds \<open>d\<close> to the day
  number, and \<^verbatim>\<open>(end_date.date() - start_date.date()).days\<close> is the difference of the day
  numbers. No sum computed below lies after the end date, so the addition cannot overflow.
\<close>

record date_range =
  startDate :: string
  endDate :: string

text \<open>\<^verbatim>\<open>range(n)\<close>: the integers from 0 to \<open>n - 1\<close>, none when \<open>n\<close> is not positive.\<close>

definition py_range :: "int \<Rightarrow> int list" where
  "py_range n = [0..n - 1]"

definition migrate_date_ranges ::
  "(string \<Rightarrow> exn + int) \<Rightarrow> (int \<Rightarrow> string) \<Rightarrow> string \<Rightarrow> string \<Rightarrow> exn + date_range list" where
  "migrate_date_ranges strptime strftime start_date end_date =
     bind (strptime start_date) (\<lambda>s. bind (strptime end_date) (\<lambda>e.
       Inr (map (\<lambda>d. \<lparr>startDate = strftime (s + d), endDate = strftime (s + d)\<rparr>)
              (py_range (e - s + 1)))))"

text \<open>
  The one element of \<^verbatim>\<open>body["reportRequests"]\<close>, after \<^verbatim>\<open>dateRanges\<close> has been set to
  \<^verbatim>\<open>[r]\<close>.
\<close>

record report_request =
  viewId :: string
  dimensions :: "string list"
  metrics :: "string list"
  dateRanges :: "date_range list"

definition request_body :: "int \<Rightarrow> date_range \<Rightarrow> report_request" where
  "request_body table_id r =
     \<lparr>viewId = str_of_int table_id,
      dimensions = [''ga:pagePath'', ''ga:browser'', ''ga:operatingSystem'', ''ga:deviceCategory'',
                    ''ga:browserSize'', ''ga:language'', ''ga:country''],
      metrics = [''ga:pageviews'', ''ga:sessions''],
      dateRanges = [r]\<rparr>"

text \<open>\<^verbatim>\<open>response["reports"][0]["data"]["rows"]\<close>\<close>

definition response_rows :: "pyval \<Rightarrow> exn + pyval" where
  "response_rows response =
     bind (getitem response (PStr ''reports'')) (\<lambda>reports. bind (getitem reports (PInt 0)) (\<lambda>report.
     bind (getitem report (PStr ''data'')) (\<lambda>data. getitem data (PStr ''rows''))))"

text \<open>
  The assignment \<^verbatim>\<open>d[k] = v\<close>: a key already present keeps its place and takes the new
  value, a new key goes to the end.
\<close>

fun setitem :: "('k \<times> 'v) list \<Rightarrow> 'k \<Rightarrow> 'v \<Rightarrow> ('k \<times> 'v) list" where
  "setitem [] k v = [(k, v)]"
| "setitem ((k', v') # kvs) k v = (if k' = k then (k', v) # kvs else (k', v') # setitem kvs k v)"

text \<open>
  The loop of \<^verbatim>\<open>__migrate_extract\<close> updates the dictionary \<^verbatim>\<open>rows\<close>. The calls of the
  reporting service are its effect on the outside; \<open>requests\<close> records them in order.
  The service is a parameter: it answers a request with a response or fails.
\<close>

record fetched =
  rows :: "(string \<times> pyval) list"
  requests :: "report_request list"

fun extract_loop ::
  "(report_request \<Rightarrow> exn + pyval) \<Rightarrow> int \<Rightarrow> date_range list \<Rightarrow> fetched \<Rightarrow> exn + fetched" where
  "extract_loop service table_id [] acc = Inr acc"
| "extract_loop service table_id (r # rs) acc =
     bind (service (request_body table_id r)) (\<lambda>response.
     bind (response_rows response) (\<lambda>data.
       extract_loop service table_id rs
         \<lparr>rows = setitem (rows acc) (startDate r) data,
          requests = requests acc @ [request_body table_id r]\<rparr>))"

definition migrate_extract ::
  "(report_request \<Rightarrow> exn + pyval) \<Rightarrow> int \<Rightarrow> date_range list \<Rightarrow> exn + fetched" where
  "migrate_extract service table_id date_ranges =
     extract_loop service table_id date_ranges \<lparr>rows = [], requests = []\<rparr>"

text \<open>The range of one day: start and end are the same day string.\<close>

definition single_day :: "(int \<Rightarrow> string) \<Rightarrow> int \<Rightarrow> date_range" where
  "single_day strftime d = \<lparr>startDate = strftime d, endDate = strftime d\<rparr>"

section \<open>The library's dates, for running the aggregator on concrete days\<close>

text \<open>
  An instance of the two parameters above, after the standard library: the day number
  of a date and back as \<^verbatim>\<open>datetime.py\<close> computes them, the strings that the format
  \<^verbatim>\<open>%Y-%m-%d\<close> accepts (a year of four digits, a month and a day of one or two), and the
  rendering of CPython on glibc: the year as it is (a year before 1000 is not padded),
  month and day padded to two digits. The theorems on the aggregator hold for every
  instance; this one serves to evaluate it.
\<close>

definition is_leap :: "int \<Rightarrow> bool" where
  "is_leap y = (if y mod 4 = 0 then (if y mod 100 = 0 then y mod 400 = 0 else True) else False)"

definition days_in_month :: "int \<Rightarrow> int \<Rightarrow> int" where
  "days_in_month y m =
     (if m = 2 then (if is_leap y then 29 else 28)
      else if m = 4 \<or> m = 6 \<or> m = 9 \<or> m = 11 then 30 else 31)"

definition days_before_year :: "int \<Rightarrow> int" where
  "days_before_year y = (y - 1) * 365 + (y - 1) div 4 - (y - 1) div 100 + (y - 1) div 400"

definition days_before_month :: "int \<Rightarrow> int \<Rightarrow> int" where
  "days_before_month y m = sum_list (map (days_in_month y) [1..m - 1])"

definition ymd2ord :: "int \<Rightarrow> int \<Rightarrow> int \<Rightarrow> int" where
  "ymd2ord y m d = days_before_year y + days_before_month y m + d"

definition ord2ymd :: "int \<Rightarrow> int \<times> int \<times> int" where
  "ord2ymd ordinal =
     (let n = ordinal - 1;
          n400 = n div 146097; r400 = n mod 146097;
          n100 = r400 div 36524; r100 = r400 mod 36524;
          n4 = r100 div 1461; r4 = r100 mod 1461;
          n1 = r4 div 365; r1 = r4 mod 365;
          year = n400 * 400 + 1 + n100 * 100 + n4 * 4 + n1
      in if n1 = 4 \<or> n100 = 4 then (year - 1, 12, 31)
         else
           let month = (r1 + 50) div 32;
               preceding = days_before_month year month
           in if preceding > r1
              then (year, month - 1, r1 - (preceding - days_in_month year (month - 1)) + 1)
              else (year, month, r1 - preceding + 1))"

definition is_digit :: "char \<Rightarrow> bool" where
  "is_digit c \<longleftrightarrow> 48 \<le> (of_char c :: nat) \<and> (of_char c :: nat) \<le> 57"

definition number :: "string \<Rightarrow> int" where
  "number s = foldl (\<lambda>a c. 10 * a + (int (of_char c) - 48)) 0 s"

fun fields :: "string \<Rightarrow> string list" where
  "fields [] = [[]]"
| "fields (c # cs) =
     (if c = CHR ''-'' then [] # fields cs
      else (case fields cs of f # fs \<Rightarrow> (c # f) # fs | [] \<Rightarrow> [[c]]))"

definition year_field :: "string \<Rightarrow> bool" where
  "year_field s \<longleftrightarrow> length s = 4 \<and> list_all is_digit s"

definition month_field :: "string \<Rightarrow> bool" where
  "month_field s \<longleftrightarrow>
     (length s = 1 \<or> length s = 2) \<and> list_all is_digit s \<and> 1 \<le> number s \<and> number s \<le> 12"

definition day_field :: "string \<Rightarrow> bool" where
  "day_field s =
     (if list_all is_digit s then (length s = 1 \<or> length s = 2) \<and> 1 \<le> number s \<and> number s \<le> 31
      else length s = 2 \<and> hd s = CHR '' '' \<and> is_digit (last s) \<and> 1 \<le> number [last s])"

definition strptime_ymd :: "string \<Rightarrow> exn + int" where
  "strptime_ymd s =
     (case fields s of
        [y, m, d] \<Rightarrow>
          if year_field y \<and> month_field m \<and> day_field d then
            (let yy = number y; mm = number m; dd = number (filter is_digit d)
             in if 1 \<le> yy \<and> dd \<le> days_in_month yy mm then Inr (ymd2ord yy mm dd)
                else Inl ValueError)
          else Inl ValueError
      | _ \<Rightarrow> Inl ValueError)"

definition zero_pad :: "nat \<Rightarrow> int \<Rightarrow> string" where
  "zero_pad w i = replicate (w - length (str_of_int i)) CHR ''0'' @ str_of_int i"

definition strftime_ymd :: "int \<Rightarrow> string" where
  "strftime_ymd ordinal =
     (case ord2ymd ordinal of (y, m, d) \<Rightarrow>
        str_of_int y @ ''-'' @ zero_pad 2 m @ ''-'' @ zero_pad 2 d)"

section \<open>What is read off the output\<close>

text \<open>
  The identifiers of the sessions, the identifiers of the page views and the sessions
  the page views refer to, each in the order of the output list; and the text entries.
\<close>

fun session_ids :: "entry list \<Rightarrow> int list" where
  "session_ids [] = []"
| "session_ids (ESession s # es) = session_id s # session_ids es"
| "session_ids (e # es) = session_ids es"

fun view_ids :: "entry list \<Rightarrow> int list" where
  "view_ids [] = []"
| "view_ids (EPageView p # es) = view_id p # view_ids es"
| "view_ids (e # es) = view_ids es"

fun view_sessions :: "entry list \<Rightarrow> int list" where
  "view_sessions [] = []"
| "view_sessions (EPageView p # es) = pv_session_id p # view_sessions es"
| "view_sessions (e # es) = view_sessions es"

fun texts :: "entry list \<Rightarrow> string list" where
  "texts [] = []"
| "texts (EText t # es) = t # texts es"
| "texts (e # es) = texts es"



text \<open>
  Reading the list from the front with the set of session identifiers met so far: every
  page view refers to one of them.
\<close>

fun refs_known :: "int set \<Rightarrow> entry list \<Rightarrow> bool" where
  "refs_known seen [] = True"
| "refs_known seen (ESession s # es) = refs_known (insert (session_id s) seen) es"
| "refs_known seen (EPageView p # es) = (pv_session_id p \<in> seen \<and> refs_known seen es)"
| "refs_known seen (EText t # es) = refs_known seen es"

text \<open>
  The invariant of the loops: each counter is one past the identifiers used, which are
  1, 2, 3 and so on in the order of the list, and no page view refers forward.
\<close>

definition counters_ok :: "vars \<Rightarrow> bool" where
  "counters_ok vs \<longleftrightarrow>
     1 \<le> cur_session_id vs \<and> 1 \<le> page_view_id vs \<and>
     session_ids (sql_inserts vs) = [1..cur_session_id vs - 1] \<and>
     view_ids (sql_inserts vs) = [1..page_view_id vs - 1] \<and>
     refs_known {} (sql_inserts vs)"

definition fixed_fields :: "int \<Rightarrow> string \<Rightarrow> entry list \<Rightarrow> bool" where
  "fixed_fields wid host es \<longleftrightarrow>
     (\<forall>s. ESession s \<in> set es \<longrightarrow> website_id s = wid \<and> hostname s = host) \<and>
     (\<forall>p. EPageView p \<in> set es \<longrightarrow> pv_website_id p = wid)"

section \<open>Inputs to run the code on\<close>

text \<open>
  The row of the source's comment, with the metric values \<open>v\<close> and \<open>s\<close>, and the value
  the aggregator stores for a day: the list of that day's rows.
\<close>

definition example_dimensions :: pyval where
  "example_dimensions = PList [PStr ''/blog/29'', PStr ''Opera'', PStr ''Windows'',
     PStr ''desktop'', PStr ''2520x1320'', PStr ''de-de'', PStr ''Germany'']"

definition report_row :: "pyval \<Rightarrow> pyval \<Rightarrow> pyval" where
  "report_row v s = PDict [(PStr ''dimensions'', example_dimensions),
     (PStr ''metrics'', PList [PDict [(PStr ''values'', PList [v, s])]])]"

definition one_day :: "pyval list \<Rightarrow> (string \<times> pyval) list" where
  "one_day day_rows = [(''2022-02-22'', PList day_rows)]"


text \<open>
  A decoded JSON value has strings for the keys of its dictionaries. This is what is asked
  of an item of the mapping, at its top.
\<close>

fun string_keys :: "pyval \<Rightarrow> bool" where
  "string_keys (PDict kvs) = list_all (\<lambda>(k, v). case k of PStr s \<Rightarrow> True | _ \<Rightarrow> False) kvs"
| "string_keys v = True"

text \<open>
  The loop body subscripts the same object with \<^verbatim>\<open>0\<close> and with \<^verbatim>\<open>"dimensions"\<close>. A list
  answers only the first. A dictionary with both keys answers both; the body runs to its
  end on such an item, which is how the three branches are evaluated below.
\<close>

definition keyed_item :: "pyval \<Rightarrow> pyval" where
  "keyed_item r = PDict [(PInt 0, r), (PStr ''dimensions'', example_dimensions)]"

definition keyed_day :: "int \<Rightarrow> int \<Rightarrow> (string \<times> pyval) list" where
  "keyed_day v s = [(''2022-02-22'', keyed_item (report_row (PInt v) (PInt s)))]"

definition keyed_rows :: "(string \<times> pyval) list" where
  "keyed_rows = [(''2022-02-22'', keyed_item (report_row (PInt 5) (PInt 2))),
                 (''2022-02-23'', keyed_item (report_row (PInt 4) (PInt 2)))]"

definition keyed_out :: "entry list" where
  "keyed_out = projr (migrate_transform (\<lambda>n. n) keyed_rows)"

text \<open>The second session of that run, and the last page view of its first item.\<close>

definition keyed_session :: Session where
  "keyed_session =
     \<lparr>session_id = 2, session_uuid = 1, website_id = 1,
      created_at = ''2022-02-22 00:00:00.000+00'', hostname = ''localhost'',
      browser = PStr ''Opera'', os = PStr ''Windows'', device = PStr ''desktop'',
      screen = PStr ''2520x1320'', language = PStr ''de-de'', country = PStr ''Germany''\<rparr>"

definition keyed_view :: PageView where
  "keyed_view =
     \<lparr>view_id = 5, pv_website_id = 1, pv_session_id = 2,
      pv_created_at = ''2022-02-22 00:00:00.000+00'', url = PStr ''/blog/29''\<rparr>"

text \<open>A reporting service that answers each request with one row naming the day asked for.\<close>

definition day_data :: "string \<Rightarrow> pyval" where
  "day_data day = PList [PStr day]"

definition echo_service :: "report_request \<Rightarrow> exn + pyval" where
  "echo_service request =
     (case dateRanges request of
        [r] \<Rightarrow> Inr (PDict [(PStr ''reports'',
                 PList [PDict [(PStr ''data'', PDict [(PStr ''rows'', day_data (startDate r))])]])])
      | _ \<Rightarrow> Inl HttpError)"

section \<open>Sequencing and the observers\<close>

lemma bind_eq_Inr: "bind m f = Inr y \<longleftrightarrow> (\<exists>x. m = Inr x \<and> f x = Inr y)"
  by (cases m) (simp_all add: bind_def)

lemma bind_Inl [simp]: "bind (Inl e) f = Inl e"
  by (simp add: bind_def)

lemma bind_Inr [simp]: "bind (Inr x) f = f x"
  by (simp add: bind_def)

lemma session_ids_append: "session_ids (xs @ ys) = session_ids xs @ session_ids ys"
  by (induction xs rule: session_ids.induct) simp_all

lemma view_ids_append: "view_ids (xs @ ys) = view_ids xs @ view_ids ys"
  by (induction xs rule: view_ids.induct) simp_all

lemma refs_known_append:
  "refs_known seen (xs @ ys) \<longleftrightarrow> refs_known seen xs \<and> refs_known (seen \<union> set (session_ids xs)) ys"
  by (induction seen xs rule: refs_known.induct) simp_all

lemma upto_snoc: "1 \<le> c \<Longrightarrow> [1..c - 1] @ [c] = [1..c + 1 - 1]"
  using upto_rec2 [of 1 c] by simp

lemma new_session_fields:
  "new_session uuid4 wid host row ts vs = Inr s \<Longrightarrow>
     session_id s = cur_session_id vs \<and> website_id s = wid \<and> hostname s = host \<and> created_at s = ts"
  by (auto simp: new_session_def bind_eq_Inr)

lemma new_page_view_fields:
  "new_page_view wid row ts sid vs = Inr p \<Longrightarrow>
     view_id p = page_view_id vs \<and> pv_website_id p = wid \<and> pv_session_id p = sid \<and> pv_created_at p = ts"
  by (auto simp: new_page_view_def bind_eq_Inr)

section \<open>The loops keep the counters and the back references in order\<close>

lemma views_of_frame:
  "views_of wid row ts sid n vs = Inr vs' \<Longrightarrow>
     session_ids (sql_inserts vs') = session_ids (sql_inserts vs) \<and>
     cur_session_id vs' = cur_session_id vs \<and> uuid_calls vs' = uuid_calls vs \<and>
     page_view_id vs' = page_view_id vs + int n"
proof (induction n arbitrary: vs)
  case 0
  then show ?case by simp
next
  case (Suc n)
  from Suc.prems obtain p where
    "views_of wid row ts sid n
       (vs\<lparr>sql_inserts := sql_inserts vs @ [EPageView p], page_view_id := page_view_id vs + 1\<rparr>) = Inr vs'"
    by (auto simp: bind_eq_Inr)
  from Suc.IH [OF this] show ?case by (simp add: session_ids_append)
qed

lemma views_of_view_ids:
  "views_of wid row ts sid n vs = Inr vs' \<Longrightarrow> 1 \<le> page_view_id vs \<Longrightarrow>
   view_ids (sql_inserts vs) = [1..page_view_id vs - 1] \<Longrightarrow>
     view_ids (sql_inserts vs') = [1..page_view_id vs' - 1]"
proof (induction n arbitrary: vs)
  case 0
  then show ?case by simp
next
  case (Suc n)
  from Suc.prems(1) obtain p where p: "new_page_view wid row ts sid vs = Inr p"
    and rest: "views_of wid row ts sid n
       (vs\<lparr>sql_inserts := sql_inserts vs @ [EPageView p], page_view_id := page_view_id vs + 1\<rparr>) = Inr vs'"
    by (auto simp: bind_eq_Inr)
  have "view_id p = page_view_id vs" using new_page_view_fields [OF p] by simp
  with Suc.prems(2,3) show ?case
    by (intro Suc.IH [OF rest]) (simp_all add: view_ids_append upto_snoc)
qed

lemma views_of_refs:
  "views_of wid row ts sid n vs = Inr vs' \<Longrightarrow> refs_known {} (sql_inserts vs) \<Longrightarrow>
   sid \<in> set (session_ids (sql_inserts vs)) \<Longrightarrow> refs_known {} (sql_inserts vs')"
proof (induction n arbitrary: vs)
  case 0
  then show ?case by simp
next
  case (Suc n)
  from Suc.prems(1) obtain p where p: "new_page_view wid row ts sid vs = Inr p"
    and rest: "views_of wid row ts sid n
       (vs\<lparr>sql_inserts := sql_inserts vs @ [EPageView p], page_view_id := page_view_id vs + 1\<rparr>) = Inr vs'"
    by (auto simp: bind_eq_Inr)
  have "pv_session_id p = sid" using new_page_view_fields [OF p] by simp
  with Suc.prems(2,3) show ?case
    by (intro Suc.IH [OF rest]) (simp_all add: refs_known_append session_ids_append)
qed

lemma views_of_counters_ok:
  assumes "views_of wid row ts sid n vs = Inr vs'" and "counters_ok vs"
    and "1 \<le> sid" and "sid < cur_session_id vs"
  shows "counters_ok vs'"
proof -
  have "sid \<in> set (session_ids (sql_inserts vs))"
    using assms(2-4) by (simp add: counters_ok_def)
  with assms(1,2) views_of_frame [OF assms(1)] views_of_view_ids [OF assms(1)]
    views_of_refs [OF assms(1)]
  show ?thesis by (simp add: counters_ok_def)
qed

lemma one_view_each_counters_ok:
  "one_view_each uuid4 wid host row ts n vs = Inr vs' \<Longrightarrow> counters_ok vs \<Longrightarrow>
     counters_ok vs' \<and> cur_session_id vs' = cur_session_id vs + int n"
proof (induction n arbitrary: vs)
  case 0
  then show ?case by simp
next
  case (Suc n)
  from Suc.prems(1) obtain s p where s: "new_session uuid4 wid host row ts vs = Inr s"
    and p: "new_page_view wid row ts (cur_session_id vs) vs = Inr p"
    and rest: "one_view_each uuid4 wid host row ts n
         (vs\<lparr>sql_inserts := sql_inserts vs @ [ESession s, EPageView p],
             cur_session_id := cur_session_id vs + 1,
             page_view_id := page_view_id vs + 1,
             uuid_calls := Suc (uuid_calls vs)\<rparr>) = Inr vs'"
    by (auto simp: bind_eq_Inr)
  have "counters_ok (vs\<lparr>sql_inserts := sql_inserts vs @ [ESession s, EPageView p],
             cur_session_id := cur_session_id vs + 1,
             page_view_id := page_view_id vs + 1,
             uuid_calls := Suc (uuid_calls vs)\<rparr>)"
    using Suc.prems(2) new_session_fields [OF s] new_page_view_fields [OF p]
    by (simp add: counters_ok_def session_ids_append view_ids_append refs_known_append upto_snoc)
  from Suc.IH [OF rest this] show ?case by simp
qed

lemma split_equally_counters_ok:
  "split_equally uuid4 wid host row ts per n vs = Inr vs' \<Longrightarrow> counters_ok vs \<Longrightarrow>
     counters_ok vs'"
proof (induction n arbitrary: vs)
  case 0
  then show ?case by simp
next
  case (Suc n)
  from Suc.prems(1) obtain s vs1 where s: "new_session uuid4 wid host row ts vs = Inr s"
    and v: "views_of wid row ts (cur_session_id vs) per
             (vs\<lparr>sql_inserts := sql_inserts vs @ [ESession s],
                 uuid_calls := Suc (uuid_calls vs)\<rparr>) = Inr vs1"
    and rest: "split_equally uuid4 wid host row ts per n
         (vs1\<lparr>cur_session_id := cur_session_id vs1 + 1\<rparr>) = Inr vs'"
    by (auto simp: bind_eq_Inr)
  have sid: "session_id s = cur_session_id vs" using new_session_fields [OF s] by simp
  from Suc.prems(2) have ok: "1 \<le> cur_session_id vs" "1 \<le> page_view_id vs"
    "session_ids (sql_inserts vs) = [1..cur_session_id vs - 1]"
    "view_ids (sql_inserts vs) = [1..page_view_id vs - 1]"
    "refs_known {} (sql_inserts vs)"
    by (simp_all add: counters_ok_def)
  have f: "session_ids (sql_inserts vs1) = [1..cur_session_id vs - 1] @ [cur_session_id vs]"
    "cur_session_id vs1 = cur_session_id vs" "page_view_id vs1 = page_view_id vs + int per"
    using views_of_frame [OF v] ok(3) sid by (simp_all add: session_ids_append)
  have w: "view_ids (sql_inserts vs1) = [1..page_view_id vs1 - 1]"
    using ok(2,4) by (intro views_of_view_ids [OF v]) (simp_all add: view_ids_append)
  have r: "refs_known {} (sql_inserts vs1)"
    using ok(5) sid by (intro views_of_refs [OF v]) (simp_all add: refs_known_append session_ids_append)
  have "counters_ok (vs1\<lparr>cur_session_id := cur_session_id vs1 + 1\<rparr>)"
    using ok(1,2) f w r by (simp add: counters_ok_def upto_snoc)
  from Suc.IH [OF rest this] show ?case .
qed

lemma max_with_1_ge: "max_with_1 v = Inr n \<Longrightarrow> 1 \<le> n"
  by (cases v) auto

lemma transform_item_counters_ok:
  assumes "transform_item uuid4 wid host day row vs = Inr vs'" and "counters_ok vs"
  shows "counters_ok vs'"
proof -
  let ?ts = "day @ '' 00:00:00.000+00''"
  from assms(1) obtain pv s0 sessions v where
    n: "max_with_1 s0 = Inr sessions" and
    br: "(if v div sessions = 1 then
          one_view_each uuid4 wid host row ?ts (nat sessions) vs
        else if v mod sessions = 0 then
          split_equally uuid4 wid host row ?ts (nat (v div sessions)) (nat sessions) vs
        else
          bind (one_view_each uuid4 wid host row ?ts (nat sessions) vs) (\<lambda>vs'.
            views_of wid row ?ts (cur_session_id vs' - 1) (nat (v - sessions)) vs')) = Inr vs'"
    by (auto simp: transform_item_def bind_eq_Inr Let_def split: prod.splits)
  have pos: "1 \<le> sessions" using max_with_1_ge [OF n] .
  consider (one) "v div sessions = 1" | (even) "v div sessions \<noteq> 1" "v mod sessions = 0"
    | (rest) "v div sessions \<noteq> 1" "v mod sessions \<noteq> 0" by blast
  then show ?thesis
  proof cases
    case one
    with br assms(2) show ?thesis by (auto dest: one_view_each_counters_ok)
  next
    case even
    with br assms(2) show ?thesis by (auto dest: split_equally_counters_ok)
  next
    case rest
    with br obtain vs1 where
      a: "one_view_each uuid4 wid host row ?ts (nat sessions) vs = Inr vs1" and
      b: "views_of wid row ?ts (cur_session_id vs1 - 1) (nat (v - sessions)) vs1 = Inr vs'"
      by (auto simp: bind_eq_Inr)
    from one_view_each_counters_ok [OF a assms(2)]
    have ok1: "counters_ok vs1" and c: "cur_session_id vs1 = cur_session_id vs + int (nat sessions)"
      by simp_all
    have "1 \<le> cur_session_id vs" using assms(2) by (simp add: counters_ok_def)
    with c pos have "1 \<le> cur_session_id vs1 - 1" by simp
    then show ?thesis using views_of_counters_ok [OF b ok1] by simp
  qed
qed

lemma transform_items_counters_ok:
  "transform_items uuid4 wid host items vs = Inr vs' \<Longrightarrow> counters_ok vs \<Longrightarrow> counters_ok vs'"
proof (induction items arbitrary: vs)
  case Nil
  then show ?case by simp
next
  case (Cons a items)
  obtain day row where a: "a = (day, row)" by (cases a)
  from Cons.prems(1) obtain vs1 where
    "transform_item uuid4 wid host day row vs = Inr vs1" and
    "transform_items uuid4 wid host items vs1 = Inr vs'"
    by (auto simp: a bind_eq_Inr)
  with Cons.IH Cons.prems(2) transform_item_counters_ok show ?case by blast
qed

lemma initial_counters_ok:
  "counters_ok \<lparr>page_view_id = 1, cur_session_id = 1, sql_inserts = [], uuid_calls = 0\<rparr>"
  by (simp add: counters_ok_def)

section \<open>The loops stamp the fixed website and host\<close>

lemma views_of_fixed:
  "views_of wid row ts sid n vs = Inr vs' \<Longrightarrow> fixed_fields wid host (sql_inserts vs) \<Longrightarrow>
     fixed_fields wid host (sql_inserts vs')"
proof (induction n arbitrary: vs)
  case 0
  then show ?case by simp
next
  case (Suc n)
  from Suc.prems(1) obtain p where p: "new_page_view wid row ts sid vs = Inr p"
    and rest: "views_of wid row ts sid n
       (vs\<lparr>sql_inserts := sql_inserts vs @ [EPageView p], page_view_id := page_view_id vs + 1\<rparr>) = Inr vs'"
    by (auto simp: bind_eq_Inr)
  have "pv_website_id p = wid" using new_page_view_fields [OF p] by simp
  with Suc.prems(2) show ?case
    by (intro Suc.IH [OF rest]) (auto simp: fixed_fields_def)
qed

lemma one_view_each_fixed:
  "one_view_each uuid4 wid host row ts n vs = Inr vs' \<Longrightarrow>
   fixed_fields wid host (sql_inserts vs) \<Longrightarrow> fixed_fields wid host (sql_inserts vs')"
proof (induction n arbitrary: vs)
  case 0
  then show ?case by simp
next
  case (Suc n)
  from Suc.prems(1) obtain s p where s: "new_session uuid4 wid host row ts vs = Inr s"
    and p: "new_page_view wid row ts (cur_session_id vs) vs = Inr p"
    and rest: "one_view_each uuid4 wid host row ts n
         (vs\<lparr>sql_inserts := sql_inserts vs @ [ESession s, EPageView p],
             cur_session_id := cur_session_id vs + 1,
             page_view_id := page_view_id vs + 1,
             uuid_calls := Suc (uuid_calls vs)\<rparr>) = Inr vs'"
    by (auto simp: bind_eq_Inr)
  show ?case
    using Suc.prems(2) new_session_fields [OF s] new_page_view_fields [OF p]
    by (intro Suc.IH [OF rest]) (auto simp: fixed_fields_def)
qed

lemma split_equally_fixed:
  "split_equally uuid4 wid host row ts per n vs = Inr vs' \<Longrightarrow>
   fixed_fields wid host (sql_inserts vs) \<Longrightarrow> fixed_fields wid host (sql_inserts vs')"
proof (induction n arbitrary: vs)
  case 0
  then show ?case by simp
next
  case (Suc n)
  from Suc.prems(1) obtain s vs1 where s: "new_session uuid4 wid host row ts vs = Inr s"
    and v: "views_of wid row ts (cur_session_id vs) per
             (vs\<lparr>sql_inserts := sql_inserts vs @ [ESession s],
                 uuid_calls := Suc (uuid_calls vs)\<rparr>) = Inr vs1"
    and rest: "split_equally uuid4 wid host row ts per n
         (vs1\<lparr>cur_session_id := cur_session_id vs1 + 1\<rparr>) = Inr vs'"
    by (auto simp: bind_eq_Inr)
  have "fixed_fields wid host (sql_inserts vs1)"
    using Suc.prems(2) new_session_fields [OF s]
    by (intro views_of_fixed [OF v]) (auto simp: fixed_fields_def)
  then show ?case by (intro Suc.IH [OF rest]) simp
qed

lemma transform_item_fixed:
  assumes "transform_item uuid4 wid host day row vs = Inr vs'"
    and "fixed_fields wid host (sql_inserts vs)"
  shows "fixed_fields wid host (sql_inserts vs')"
  using assms
  by (auto simp: transform_item_def bind_eq_Inr Let_def split: prod.splits if_splits
           dest: one_view_each_fixed split_equally_fixed views_of_fixed)

lemma transform_items_fixed:
  "transform_items uuid4 wid host items vs = Inr vs' \<Longrightarrow>
   fixed_fields wid host (sql_inserts vs) \<Longrightarrow> fixed_fields wid host (sql_inserts vs')"
proof (induction items arbitrary: vs)
  case Nil
  then show ?case by simp
next
  case (Cons a items)
  obtain day row where a: "a = (day, row)" by (cases a)
  from Cons.prems(1) obtain vs1 where
    "transform_item uuid4 wid host day row vs = Inr vs1" and
    "transform_items uuid4 wid host items vs1 = Inr vs'"
    by (auto simp: a bind_eq_Inr)
  with Cons.IH Cons.prems(2) transform_item_fixed show ?case by blast
qed

section \<open>The whole run\<close>

lemma migrate_transform_Inr:
  "migrate_transform uuid4 items = Inr out \<Longrightarrow>
     \<exists>vs. transform_items uuid4 1 ''localhost'' items
             \<lparr>page_view_id = 1, cur_session_id = 1, sql_inserts = [], uuid_calls = 0\<rparr> = Inr vs \<and>
          out = sql_inserts vs @ [EText (setval_text (page_view_id vs) (cur_session_id vs))]"
  by (auto simp: migrate_transform_def bind_eq_Inr)

lemma refs_known_nth:
  "refs_known seen xs \<Longrightarrow> i < length xs \<Longrightarrow> xs ! i = EPageView p \<Longrightarrow>
     pv_session_id p \<in> seen \<or> (\<exists>j<i. \<exists>s. xs ! j = ESession s \<and> session_id s = pv_session_id p)"
proof (induction seen xs arbitrary: i rule: refs_known.induct)
  case (1 seen)
  then show ?case by simp
next
  case (2 seen s es)
  show ?case
  proof (cases i)
    case 0
    with 2 show ?thesis by simp
  next
    case (Suc k)
    with 2 have "pv_session_id p \<in> insert (session_id s) seen \<or>
      (\<exists>j<k. \<exists>s. es ! j = ESession s \<and> session_id s = pv_session_id p)" by simp
    then show ?thesis
    proof (elim disjE exE conjE)
      assume "pv_session_id p \<in> insert (session_id s) seen"
      then show ?thesis using Suc by (cases "pv_session_id p = session_id s") auto
    next
      fix j s' assume "j < k" "es ! j = ESession s'" "session_id s' = pv_session_id p"
      then have "Suc j < i \<and> (ESession s # es) ! Suc j = ESession s' \<and> session_id s' = pv_session_id p"
        using Suc by simp
      then show ?thesis by blast
    qed
  qed
next
  case (3 seen q es)
  show ?case
  proof (cases i)
    case 0
    with 3 show ?thesis by simp
  next
    case (Suc k)
    with 3 have "pv_session_id p \<in> seen \<or>
      (\<exists>j<k. \<exists>s. es ! j = ESession s \<and> session_id s = pv_session_id p)" by simp
    then show ?thesis
    proof (elim disjE exE conjE)
      assume "pv_session_id p \<in> seen"
      then show ?thesis by simp
    next
      fix j s' assume "j < k" "es ! j = ESession s'" "session_id s' = pv_session_id p"
      then have "Suc j < i \<and> (EPageView q # es) ! Suc j = ESession s' \<and> session_id s' = pv_session_id p"
        using Suc by simp
      then show ?thesis by blast
    qed
  qed
next
  case (4 seen t es)
  show ?case
  proof (cases i)
    case 0
    with 4 show ?thesis by simp
  next
    case (Suc k)
    with 4 have "pv_session_id p \<in> seen \<or>
      (\<exists>j<k. \<exists>s. es ! j = ESession s \<and> session_id s = pv_session_id p)" by simp
    then show ?thesis
    proof (elim disjE exE conjE)
      assume "pv_session_id p \<in> seen"
      then show ?thesis by simp
    next
      fix j s' assume "j < k" "es ! j = ESession s'" "session_id s' = pv_session_id p"
      then have "Suc j < i \<and> (EText t # es) ! Suc j = ESession s' \<and> session_id s' = pv_session_id p"
        using Suc by simp
      then show ?thesis by blast
    qed
  qed
qed

lemma migrate_transform_counters:
  assumes "migrate_transform uuid4 items = Inr out"
  shows "\<exists>vs. counters_ok vs \<and>
     out = sql_inserts vs @ [EText (setval_text (page_view_id vs) (cur_session_id vs))]"
proof -
  from migrate_transform_Inr [OF assms] obtain vs where
    run: "transform_items uuid4 1 ''localhost'' items
             \<lparr>page_view_id = 1, cur_session_id = 1, sql_inserts = [], uuid_calls = 0\<rparr> = Inr vs"
    and out: "out = sql_inserts vs @ [EText (setval_text (page_view_id vs) (cur_session_id vs))]"
    by blast
  from transform_items_counters_ok [OF run initial_counters_ok] out show ?thesis by blast
qed

section \<open>The aggregator's loops\<close>

lemma shifted_upto: "map (\<lambda>d. s + d) [0..n] = [s..s + n]"
proof (induction "nat (n + 1)" arbitrary: n)
  case 0
  then show ?case by simp
next
  case (Suc k)
  then have n: "0 \<le> n" and k: "k = nat (n - 1 + 1)" by simp_all
  have a: "[0..n] = [0..n - 1] @ [n]" using n by (simp add: upto_rec2)
  have b: "[s..s + n] = [s..s + n - 1] @ [s + n]" using n by (simp add: upto_rec2)
  have "map (\<lambda>d. s + d) [0..n - 1] = [s..s + (n - 1)]" by (rule Suc.hyps(1) [OF k])
  then have ih: "map (\<lambda>d. s + d) [0..n - 1] = [s..s + n - 1]" by (simp add: add_diff_eq)
  have "map (\<lambda>d. s + d) [0..n] = map (\<lambda>d. s + d) [0..n - 1] @ [s + n]"
    by (subst a) simp
  also have "\<dots> = [s..s + n]" by (simp only: ih b)
  finally show ?case .
qed

lemma migrate_date_ranges_days:
  assumes "strptime start_date = Inr s" and "strptime end_date = Inr e"
  shows "migrate_date_ranges strptime strftime start_date end_date =
           Inr (map (single_day strftime) [s..e])"
proof -
  have "map (single_day strftime) [s..e] = map (single_day strftime) (map (\<lambda>d. s + d) [0..e - s])"
    by (simp add: shifted_upto)
  then show ?thesis
    using assms by (simp add: migrate_date_ranges_def py_range_def single_day_def comp_def)
qed

lemma startDate_single_day: "startDate (single_day strftime d) = strftime d"
  by (simp add: single_day_def)

lemma setitem_fresh: "k \<notin> fst ` set kvs \<Longrightarrow> setitem kvs k v = kvs @ [(k, v)]"
  by (induction kvs) auto

lemma extract_loop_days:
  assumes "\<forall>d\<in>set ds. bind (service (request_body table_id (single_day strftime d))) response_rows = Inr (data d)"
    and "distinct (map strftime ds)"
    and "strftime ` set ds \<inter> fst ` set (rows acc) = {}"
  shows "extract_loop service table_id (map (single_day strftime) ds) acc =
     Inr \<lparr>rows = rows acc @ map (\<lambda>d. (strftime d, data d)) ds,
          requests = requests acc @ map (\<lambda>d. request_body table_id (single_day strftime d)) ds\<rparr>"
  using assms
proof (induction ds arbitrary: acc)
  case Nil
  then show ?case by simp
next
  case (Cons d ds)
  from Cons.prems(1) obtain response where
    r: "service (request_body table_id (single_day strftime d)) = Inr response"
    and rr: "response_rows response = Inr (data d)"
    by (auto simp: bind_eq_Inr)
  have fresh: "strftime d \<notin> fst ` set (rows acc)" using Cons.prems(3) by auto
  have acc': "setitem (rows acc) (strftime d) (data d) = rows acc @ [(strftime d, data d)]"
    using fresh by (simp add: setitem_fresh)
  let ?acc = "\<lparr>rows = rows acc @ [(strftime d, data d)],
          requests = requests acc @ [request_body table_id (single_day strftime d)]\<rparr>"
  have "strftime ` set ds \<inter> fst ` set (rows ?acc) = {}"
    using Cons.prems(2,3) by auto
  with Cons.prems have "extract_loop service table_id (map (single_day strftime) ds) ?acc =
     Inr \<lparr>rows = rows ?acc @ map (\<lambda>d. (strftime d, data d)) ds,
          requests = requests ?acc @ map (\<lambda>d. request_body table_id (single_day strftime d)) ds\<rparr>"
    by (intro Cons.IH) simp_all
  then show ?case by (simp add: r rr acc' startDate_single_day)
qed

section \<open>An item that is a list of rows\<close>

lemma new_session_of_list: "new_session uuid4 wid host (PList xs) ts vs = Inl TypeError"
  by (simp add: new_session_def dimension_def)

lemma one_view_each_of_list:
  "0 < n \<Longrightarrow> one_view_each uuid4 wid host (PList xs) ts n vs = Inl TypeError"
  by (cases n) (simp_all add: new_session_of_list)

lemma split_equally_of_list:
  "0 < n \<Longrightarrow> split_equally uuid4 wid host (PList xs) ts per n vs = Inl TypeError"
  by (cases n) (simp_all add: new_session_of_list)

lemma list_item_raises: "\<exists>e. transform_item uuid4 wid host day (PList xs) vs = Inl e"
proof (cases "metric_values (PList xs)")
  case (Inl e)
  then show ?thesis by (simp add: transform_item_def)
next
  case (Inr pair)
  obtain pv s0 where pair: "pair = (pv, s0)" by (cases pair)
  show ?thesis
  proof (cases "max_with_1 s0")
    case (Inl e)
    with Inr pair show ?thesis by (simp add: transform_item_def)
  next
    case n: (Inr n)
    have pos: "0 < nat n" using max_with_1_ge [OF n] by simp
    show ?thesis
    proof (cases "as_int pv")
      case (Inl e)
      with Inr pair n show ?thesis by (simp add: transform_item_def)
    next
      case v: (Inr v)
      have "transform_item uuid4 wid host day (PList xs) vs = Inl TypeError"
        using Inr pair n v one_view_each_of_list [OF pos] split_equally_of_list [OF pos]
        by (simp add: transform_item_def Let_def)
      then show ?thesis by blast
    qed
  qed
qed

lemma list_item_ends_run:
  "(day, PList xs) \<in> set items \<Longrightarrow> \<exists>e. transform_items uuid4 wid host items vs = Inl e"
proof (induction items arbitrary: vs)
  case Nil
  then show ?case by simp
next
  case (Cons a items)
  obtain d row where a: "a = (d, row)" by (cases a)
  show ?case
  proof (cases "transform_item uuid4 wid host d row vs")
    case (Inl e)
    then show ?thesis by (simp add: a)
  next
    case (Inr vs1)
    with list_item_raises [of uuid4 wid host day xs vs] Cons.prems
    have "(day, PList xs) \<in> set items" by (auto simp: a)
    from Cons.IH [OF this, of vs1] Inr show ?thesis by (simp add: a)
  qed
qed

lemma list_item_ends_migrate_transform:
  "(day, PList xs) \<in> set items \<Longrightarrow> \<exists>e. migrate_transform uuid4 items = Inl e"
proof -
  assume "(day, PList xs) \<in> set items"
  from list_item_ends_run [OF this] obtain e where
    "transform_items uuid4 1 ''localhost'' items
       \<lparr>page_view_id = 1, cur_session_id = 1, sql_inserts = [], uuid_calls = 0\<rparr> = Inl e"
    by blast
  then have "migrate_transform uuid4 items = Inl e" by (simp add: migrate_transform_def)
  then show ?thesis by blast
qed

lemma string_keys_no_0: "string_keys (PDict kvs) \<Longrightarrow> map_of kvs (PInt 0) = None"
  by (induction kvs) (auto split: pyval.splits)

lemma decoded_item_raises:
  assumes "string_keys row"
  shows "\<exists>e. transform_item uuid4 wid host day row vs = Inl e"
proof (cases row)
  case (PInt n)
  then show ?thesis by (simp add: transform_item_def metric_values_def)
next
  case (PStr t)
  then show ?thesis
    by (cases "seq_index t 0") (simp_all add: transform_item_def metric_values_def)
next
  case (PList xs)
  then show ?thesis by (simp add: list_item_raises)
next
  case (PDict kvs)
  with assms have "getitem row (PInt 0) = Inl KeyError"
    by (simp add: string_keys_no_0)
  then show ?thesis by (simp add: transform_item_def metric_values_def)
qed

lemma decoded_items_end_run:
  "(day, row) \<in> set items \<Longrightarrow> string_keys row \<Longrightarrow>
     \<exists>e. transform_items uuid4 wid host items vs = Inl e"
proof (induction items arbitrary: vs)
  case Nil
  then show ?case by simp
next
  case (Cons a items)
  obtain d r where a: "a = (d, r)" by (cases a)
  show ?case
  proof (cases "transform_item uuid4 wid host d r vs")
    case (Inl e)
    then show ?thesis by (simp add: a)
  next
    case (Inr vs1)
    with decoded_item_raises [OF Cons.prems(2), of uuid4 wid host day vs] Cons.prems(1)
    have "(day, row) \<in> set items"
      using decoded_item_raises [OF Cons.prems(2), of uuid4 wid host d vs] by (auto simp: a)
    from Cons.IH [OF this Cons.prems(2), of vs1] Inr show ?thesis by (simp add: a)
  qed
qed

lemma decoded_items_end_migrate_transform:
  assumes "(day, row) \<in> set items" and "string_keys row"
  shows "\<exists>e. migrate_transform uuid4 items = Inl e"
proof -
  from decoded_items_end_run [OF assms] obtain e where
    "transform_items uuid4 1 ''localhost'' items
       \<lparr>page_view_id = 1, cur_session_id = 1, sql_inserts = [], uuid_calls = 0\<rparr> = Inl e"
    by blast
  then have "migrate_transform uuid4 items = Inl e" by (simp add: migrate_transform_def)
  then show ?thesis by blast
qed

lemma metric_values_first_row_only:
  "metric_values (PList (r # rs)) = metric_values (PList [r])"
  by (simp add: metric_values_def seq_index_def)

lemma string_sessions_raise:
  "metric_values row = Inr (pv, PStr s) \<Longrightarrow> transform_item uuid4 wid host day row vs = Inl TypeError"
  by (simp add: transform_item_def)

section \<open>How many sessions and page views an item adds when its loop body runs to the end\<close>

lemma one_view_each_counts:
  "one_view_each uuid4 wid host row ts n vs = Inr vs' \<Longrightarrow>
     cur_session_id vs' = cur_session_id vs + int n \<and> page_view_id vs' = page_view_id vs + int n"
proof (induction n arbitrary: vs)
  case 0
  then show ?case by simp
next
  case (Suc n)
  from Suc.prems obtain s p where
    "one_view_each uuid4 wid host row ts n
         (vs\<lparr>sql_inserts := sql_inserts vs @ [ESession s, EPageView p],
             cur_session_id := cur_session_id vs + 1,
             page_view_id := page_view_id vs + 1,
             uuid_calls := Suc (uuid_calls vs)\<rparr>) = Inr vs'"
    by (auto simp: bind_eq_Inr)
  from Suc.IH [OF this] show ?case by simp
qed

lemma split_equally_counts:
  "split_equally uuid4 wid host row ts per n vs = Inr vs' \<Longrightarrow>
     cur_session_id vs' = cur_session_id vs + int n \<and>
     page_view_id vs' = page_view_id vs + int n * int per"
proof (induction n arbitrary: vs)
  case 0
  then show ?case by simp
next
  case (Suc n)
  from Suc.prems obtain s vs1 where
    v: "views_of wid row ts (cur_session_id vs) per
             (vs\<lparr>sql_inserts := sql_inserts vs @ [ESession s],
                 uuid_calls := Suc (uuid_calls vs)\<rparr>) = Inr vs1"
    and rest: "split_equally uuid4 wid host row ts per n
         (vs1\<lparr>cur_session_id := cur_session_id vs1 + 1\<rparr>) = Inr vs'"
    by (auto simp: bind_eq_Inr)
  from Suc.IH [OF rest] views_of_frame [OF v] show ?case by (simp add: algebra_simps)
qed

lemma item_counts:
  assumes "transform_item uuid4 wid host day row vs = Inr vs'"
    and "metric_values row = Inr (PInt v, PInt s)"
  shows "cur_session_id vs' = cur_session_id vs + max s 1"
    and "page_view_id vs' = page_view_id vs +
           (if v div max s 1 = 1 then max s 1
            else if v mod max s 1 = 0 then max v 0
            else max s 1 + max (v - max s 1) 0)"
proof -
  let ?n = "max s 1" and ?ts = "day @ '' 00:00:00.000+00''"
  have br: "(if v div ?n = 1 then one_view_each uuid4 wid host row ?ts (nat ?n) vs
        else if v mod ?n = 0 then
          split_equally uuid4 wid host row ?ts (nat (v div ?n)) (nat ?n) vs
        else
          bind (one_view_each uuid4 wid host row ?ts (nat ?n) vs) (\<lambda>vs'.
            views_of wid row ?ts (cur_session_id vs' - 1) (nat (v - ?n)) vs')) = Inr vs'"
    using assms by (simp add: transform_item_def Let_def)
  have "1 \<le> ?n" by (rule max.cobounded2)
  then have nn: "int (nat ?n) = ?n" by linarith
  consider (one) "v div ?n = 1" | (even) "v div ?n \<noteq> 1" "v mod ?n = 0"
    | (rest) "v div ?n \<noteq> 1" "v mod ?n \<noteq> 0" by blast
  then have "cur_session_id vs' = cur_session_id vs + ?n \<and>
     page_view_id vs' = page_view_id vs +
           (if v div ?n = 1 then ?n else if v mod ?n = 0 then max v 0 else ?n + max (v - ?n) 0)"
  proof cases
    case one
    with br have "one_view_each uuid4 wid host row ?ts (nat ?n) vs = Inr vs'" by simp
    from one_view_each_counts [OF this] one show ?thesis by (simp only: nn if_True simp_thms)
  next
    case even
    with br have run: "split_equally uuid4 wid host row ?ts (nat (v div ?n)) (nat ?n) vs = Inr vs'"
      by simp
    have "?n * int (nat (v div ?n)) = max v 0"
    proof (cases "0 \<le> v")
      case True
      then have "0 \<le> v div ?n" by (simp add: pos_imp_zdiv_nonneg_iff)
      moreover have "?n * (v div ?n) = v" using even(2) by (simp add: mod_eq_0_iff_dvd)
      ultimately show ?thesis using True by simp
    next
      case False
      then have "v div ?n < 0" by (simp add: div_neg_pos_less0)
      with False show ?thesis by simp
    qed
    with split_equally_counts [OF run] even show ?thesis by (simp only: nn if_True if_False simp_thms)
  next
    case rest
    with br obtain vs1 where
      a: "one_view_each uuid4 wid host row ?ts (nat ?n) vs = Inr vs1" and
      b: "views_of wid row ?ts (cur_session_id vs1 - 1) (nat (v - ?n)) vs1 = Inr vs'"
      by (auto simp: bind_eq_Inr)
    have "int (nat (v - ?n)) = max (v - ?n) 0" by linarith
    with one_view_each_counts [OF a] views_of_frame [OF b] rest show ?thesis
      by (simp only: nn if_False simp_thms)
  qed
  then show "cur_session_id vs' = cur_session_id vs + max s 1"
    and "page_view_id vs' = page_view_id vs +
           (if v div max s 1 = 1 then max s 1
            else if v mod max s 1 = 0 then max v 0
            else max s 1 + max (v - max s 1) 0)" by simp_all
qed

section \<open>Evaluations used below\<close>

lemma keyed_run: "migrate_transform (\<lambda>n. n) keyed_rows = Inr keyed_out"
  by code_simp

lemma keyed_out_sizes: "length (session_ids keyed_out) = 4" "length (view_ids keyed_out) = 9"
  by code_simp+

lemmas calendar_defs = strftime_ymd_def ord2ymd_def Let_def days_before_month_def
  days_in_month_def is_leap_def zero_pad_def str_of_int_def upto.simps strptime_ymd_def
  year_field_def month_field_def day_field_def number_def is_digit_def ymd2ord_def
  days_before_year_def

lemma four_days_rendered:
  "strftime_ymd 738943 = ''2024-02-27''" "strftime_ymd 738944 = ''2024-02-28''"
  "strftime_ymd 738945 = ''2024-02-29''" "strftime_ymd 738946 = ''2024-03-01''"
  by (simp_all add: calendar_defs)

lemma two_days_parsed:
  "strptime_ymd ''2024-02-27'' = Inr 738943" "strptime_ymd ''2024-03-01'' = Inr 738946"
  by (simp_all add: calendar_defs)

lemma echo_service_answers:
  "bind (echo_service (request_body t (single_day strftime d))) response_rows =
     Inr (day_data (strftime d))"
  by (simp add: echo_service_def request_body_def single_day_def response_rows_def seq_index_def)

section \<open>The list of a run that returns\<close>

text \<open>
  What the loops build when the run gets to its end. The session identifiers and the
  view identifiers are each 1, 2, 3, ... in the order of the list.
\<close>

lemma ids_count_up_from_one:
  assumes "migrate_transform uuid4 items = Inr out"
  shows "session_ids out = [1..int (length (session_ids out))] \<and>
         view_ids out = [1..int (length (view_ids out))]"
proof -
  from migrate_transform_counters [OF assms] obtain vs where ok: "counters_ok vs"
    and out: "out = sql_inserts vs @ [EText (setval_text (page_view_id vs) (cur_session_id vs))]"
    by blast
  have s: "session_ids out = [1..cur_session_id vs - 1]"
    and v: "view_ids out = [1..page_view_id vs - 1]"
    using ok by (simp_all add: out counters_ok_def session_ids_append view_ids_append)
  have "1 \<le> cur_session_id vs" "1 \<le> page_view_id vs"
    using ok by (simp_all add: counters_ok_def)
  then have "int (length (session_ids out)) = cur_session_id vs - 1"
    and "int (length (view_ids out)) = page_view_id vs - 1"
    by (simp_all add: s v)
  with s v show ?thesis by simp
qed

lemma ids_count_up_from_one_at_keyed_rows:
  "migrate_transform (\<lambda>n. n) keyed_rows = Inr keyed_out \<and>
   session_ids keyed_out = [1, 2, 3, 4] \<and>
   view_ids keyed_out = [1, 2, 3, 4, 5, 6, 7, 8, 9]"
  using ids_count_up_from_one [OF keyed_run] keyed_run keyed_out_sizes
  by (simp add: upto.simps)

text \<open>
  Every page view's session identifier is that of a session at an earlier position.
\<close>

lemma page_views_refer_back:
  assumes "migrate_transform uuid4 items = Inr out" and "i < length out"
    and "out ! i = EPageView p"
  shows "\<exists>j\<le>i. \<exists>s. out ! j = ESession s \<and> session_id s = pv_session_id p"
proof -
  from migrate_transform_counters [OF assms(1)] obtain vs where ok: "counters_ok vs"
    and out: "out = sql_inserts vs @ [EText (setval_text (page_view_id vs) (cur_session_id vs))]"
    by blast
  have "refs_known {} out"
    using ok by (simp add: out counters_ok_def refs_known_append)
  from refs_known_nth [OF this assms(2,3)] obtain j s where
    "j < i" "out ! j = ESession s" "session_id s = pv_session_id p" by auto
  then have "j \<le> i \<and> out ! j = ESession s \<and> session_id s = pv_session_id p" by simp
  then show ?thesis by blast
qed

lemma page_views_refer_back_at_keyed_rows:
  "migrate_transform (\<lambda>n. n) keyed_rows = Inr keyed_out \<and> 6 < length keyed_out \<and>
   keyed_out ! 6 = EPageView keyed_view \<and>
   (\<exists>j\<le>6. \<exists>s. keyed_out ! j = ESession s \<and> session_id s = pv_session_id keyed_view)"
proof -
  have len: "6 < length keyed_out"
    by code_simp
  have at: "keyed_out ! 6 = EPageView keyed_view"
    by code_simp
  from page_views_refer_back [OF keyed_run len at] keyed_run len at show ?thesis by simp
qed

text \<open>
  Every session and page view has the website identifier 1 and every session the host
  name "localhost".
\<close>

lemma fixed_website_and_hostname:
  assumes "migrate_transform uuid4 items = Inr out"
  shows "(\<forall>s. ESession s \<in> set out \<longrightarrow> website_id s = 1 \<and> hostname s = ''localhost'') \<and>
         (\<forall>p. EPageView p \<in> set out \<longrightarrow> pv_website_id p = 1)"
proof -
  from migrate_transform_Inr [OF assms] obtain vs where
    run: "transform_items uuid4 1 ''localhost'' items
             \<lparr>page_view_id = 1, cur_session_id = 1, sql_inserts = [], uuid_calls = 0\<rparr> = Inr vs"
    and out: "out = sql_inserts vs @ [EText (setval_text (page_view_id vs) (cur_session_id vs))]"
    by blast
  have "fixed_fields 1 ''localhost'' (sql_inserts vs)"
    by (rule transform_items_fixed [OF run]) (simp add: fixed_fields_def)
  then show ?thesis by (auto simp: out fixed_fields_def)
qed

lemma fixed_website_and_hostname_at_keyed_rows:
  "migrate_transform (\<lambda>n. n) keyed_rows = Inr keyed_out \<and>
   ESession keyed_session \<in> set keyed_out \<and>
   website_id keyed_session = 1 \<and> hostname keyed_session = ''localhost'' \<and>
   EPageView keyed_view \<in> set keyed_out \<and> pv_website_id keyed_view = 1"
proof -
  have s: "ESession keyed_session \<in> set keyed_out" and p: "EPageView keyed_view \<in> set keyed_out"
    by code_simp+
  with fixed_website_and_hostname [OF keyed_run] keyed_run show ?thesis by blast
qed

section \<open>One range and one request per day\<close>

text \<open>
  Claim C7. For a start date no later than the end date, the aggregator produces one
  single-day range per calendar day from the start to the end inclusive, in ascending
  order, each with its start equal to its end equal to that day; and it sends one
  request per such day, in that order, and files the rows received under the day string.
  The days are the day numbers \<open>s\<close> to \<open>e\<close> of the two parsed dates; the requests are
  assumed to succeed with the rows \<open>data d\<close>, and the day strings to differ from each
  other.
\<close>

theorem one_range_and_fetch_per_day:
  assumes "strptime start_date = Inr s" and "strptime end_date = Inr e" and "s \<le> e"
    and "\<forall>d\<in>set [s..e].
           bind (service (request_body table_id (single_day strftime d))) response_rows = Inr (data d)"
    and "distinct (map strftime [s..e])"
  shows "migrate_date_ranges strptime strftime start_date end_date =
           Inr (map (single_day strftime) [s..e]) \<and>
         migrate_extract service table_id (map (single_day strftime) [s..e]) =
           Inr \<lparr>rows = map (\<lambda>d. (strftime d, data d)) [s..e],
                requests = map (\<lambda>d. request_body table_id (single_day strftime d)) [s..e]\<rparr>"
  using migrate_date_ranges_days [OF assms(1,2), of strftime]
    extract_loop_days [OF assms(4,5), of "\<lparr>rows = [], requests = []\<rparr>"]
  by (simp add: migrate_extract_def)

theorem one_range_and_fetch_per_day_witness:
  "migrate_date_ranges strptime_ymd strftime_ymd ''2024-02-27'' ''2024-03-01'' =
     Inr [\<lparr>startDate = ''2024-02-27'', endDate = ''2024-02-27''\<rparr>,
          \<lparr>startDate = ''2024-02-28'', endDate = ''2024-02-28''\<rparr>,
          \<lparr>startDate = ''2024-02-29'', endDate = ''2024-02-29''\<rparr>,
          \<lparr>startDate = ''2024-03-01'', endDate = ''2024-03-01''\<rparr>] \<and>
   map_sum id rows (migrate_extract echo_service 7
       [\<lparr>startDate = ''2024-02-27'', endDate = ''2024-02-27''\<rparr>,
        \<lparr>startDate = ''2024-02-28'', endDate = ''2024-02-28''\<rparr>,
        \<lparr>startDate = ''2024-02-29'', endDate = ''2024-02-29''\<rparr>,
        \<lparr>startDate = ''2024-03-01'', endDate = ''2024-03-01''\<rparr>]) =
     Inr [(''2024-02-27'', day_data ''2024-02-27''), (''2024-02-28'', day_data ''2024-02-28''),
          (''2024-02-29'', day_data ''2024-02-29''), (''2024-03-01'', day_data ''2024-03-01'')]"
proof -
  have le: "(738943 :: int) \<le> 738946" by simp
  have fetch: "\<forall>d\<in>set [738943..738946].
      bind (echo_service (request_body 7 (single_day strftime_ymd d))) response_rows =
        Inr (day_data (strftime_ymd d))"
    by (simp add: echo_service_answers)
  have keys: "distinct (map strftime_ymd [738943..738946])"
    by (simp add: upto.simps four_days_rendered)
  from one_range_and_fetch_per_day
         [of strptime_ymd "''2024-02-27''" 738943 "''2024-03-01''" 738946 echo_service 7
             strftime_ymd "\<lambda>d. day_data (strftime_ymd d)", OF two_days_parsed le fetch keys]
  show ?thesis
    by (simp add: upto.simps four_days_rendered single_day_def)
qed

section \<open>Rows as the aggregator delivers them\<close>

text \<open>
  Claim C1. For every dimension row the synthesizer processes, the number of page views
  emitted for it equals the row's page-view metric \<open>v\<close>. The run does not get that far:
  on the row of the source's comment, under its day as the aggregator stores it, it raises
  before any record is emitted, with the metric values as strings and as integers. Where
  the loop body does run to its end, 5 views over 3 sessions and 1 view over 3 sessions
  both give 3 page views.
\<close>

theorem page_views_of_a_row:
  "migrate_transform uuid4 (one_day [report_row (PStr ''4'') (PStr ''1'')]) = Inl TypeError \<and>
   migrate_transform uuid4 (one_day [report_row (PInt 4) (PInt 1)]) = Inl TypeError \<and>
   length (view_ids (projr (migrate_transform uuid4 (keyed_day 5 3)))) = 3 \<and>
   length (view_ids (projr (migrate_transform uuid4 (keyed_day 1 3)))) = 3"
  by code_simp

text \<open>
  Claim C2. A row with 5 page views and 3 sessions yields 3 sessions, the first two with
  one page view each and the third with three. On such a row the run raises; and where
  the loop body runs to its end, 5 // 3 is 1, the first branch is taken and each of the
  three sessions gets exactly one page view.
\<close>

theorem five_views_three_sessions:
  "migrate_transform uuid4 (one_day [report_row (PStr ''5'') (PStr ''3'')]) = Inl TypeError \<and>
   migrate_transform uuid4 (one_day [report_row (PInt 5) (PInt 3)]) = Inl TypeError \<and>
   session_ids (projr (migrate_transform uuid4 (keyed_day 5 3))) = [1, 2, 3] \<and>
   view_sessions (projr (migrate_transform uuid4 (keyed_day 5 3))) = [1, 2, 3]"
  by code_simp

text \<open>
  Claim C5. After all days and rows, exactly two sequence-reset entries are appended, one
  naming the page-view sequence and one naming the session sequence, with the values one
  past the last identifiers used. The list gets one entry: a single string that holds both
  statements.
\<close>

theorem sequence_reset_entries:
  "migrate_transform uuid4 [] =
     Inr [EText (''SELECT pg_catalog.setval('public.pageview_view_id_seq', 1, true);'' @
                 ''SELECT pg_catalog.setval('public.session_session_id_seq', 1, true);'')] \<and>
   texts keyed_out =
     [''SELECT pg_catalog.setval('public.pageview_view_id_seq', 10, true);'' @
      ''SELECT pg_catalog.setval('public.session_session_id_seq', 5, true);'']"
  by code_simp

text \<open>
  Claim C6. A row whose session metric is 0 is given one session rather than failing, and
  in general a row gets as many sessions as the larger of its session metric and 1. On a
  row with 3 page views and 0 sessions the run raises, with the metric values as strings
  (in \<^verbatim>\<open>max(sessions, 1)\<close> itself) and as integers (at the first session); where the loop
  body runs to its end there is one session.
\<close>

theorem zero_sessions_row:
  "migrate_transform uuid4 (one_day [report_row (PStr ''3'') (PStr ''0'')]) = Inl TypeError \<and>
   migrate_transform uuid4 (one_day [report_row (PInt 3) (PInt 0)]) = Inl TypeError \<and>
   session_ids (projr (migrate_transform uuid4 (keyed_day 3 0))) = [1] \<and>
   view_sessions (projr (migrate_transform uuid4 (keyed_day 3 0))) = [1, 1, 1]"
  by code_simp

text \<open>
  Claim C8. The first rule (\<open>v // s = 1\<close>) is tried before the second (\<open>v % s = 0\<close>), so a
  row with \<open>v = s\<close> gets one page view per session; and a row for which only the second
  rule holds yields \<open>s\<close> sessions, each followed at once by its \<open>v / s\<close> page views. On
  rows with 4 views over 2 sessions and 5 over 5 the run raises; where the loop body runs
  to its end, the page views follow their sessions as the claim says.
\<close>

theorem even_split_row:
  "migrate_transform uuid4 (one_day [report_row (PStr ''4'') (PStr ''2'')]) = Inl TypeError \<and>
   migrate_transform uuid4 (one_day [report_row (PInt 4) (PInt 2)]) = Inl TypeError \<and>
   migrate_transform uuid4 (one_day [report_row (PInt 5) (PInt 5)]) = Inl TypeError \<and>
   view_sessions (projr (migrate_transform uuid4 (keyed_day 4 2))) = [1, 1, 2, 2] \<and>
   view_sessions (projr (migrate_transform uuid4 (keyed_day 5 5))) = [1, 2, 3, 4, 5]"
  by code_simp

text \<open>
  Claim C9. Days are processed in ascending order and, within a day, every row of the
  day's list is processed in the order given, with records emitted for each. Of a day
  with two rows only the metrics of the first are read, and the run raises before any
  record is emitted.
\<close>

theorem rows_of_a_day:
  "metric_values (PList [report_row (PInt 4) (PInt 2), report_row (PInt 3) (PInt 1)]) =
     Inr (PInt 4, PInt 2) \<and>
   migrate_transform uuid4
     (one_day [report_row (PInt 4) (PInt 2), report_row (PInt 3) (PInt 1)]) = Inl TypeError \<and>
   migrate_transform uuid4
     (one_day [report_row (PStr ''4'') (PStr ''2''), report_row (PStr ''3'') (PStr ''1'')]) =
     Inl TypeError"
  by code_simp




end
